theory Spec2Isabelle
  imports Main "HOL-Library.Word"
begin

unbundle bit_operations_syntax

section \<open>jobd: a cron job daemon served as a synthetic file tree\<close>

text \<open>
  The development embeds \<^verbatim>\<open>job.go\<close>, \<^verbatim>\<open>jobs.go\<close> and \<^verbatim>\<open>clone.go\<close>.
  Go strings and byte slices are lists of bytes (\<^typ>\<open>string\<close>); a Go \<^verbatim>\<open>error\<close>
  is a value of the datatype \<open>error\<close>, and a Go result pair \<^verbatim>\<open>(int, error)\<close> is a pair
  of a \<^typ>\<open>nat\<close> and an \<open>error option\<close> (\<open>None\<close> is \<^verbatim>\<open>nil\<close>).
\<close>

subsection \<open>Constants of job.go\<close>

definition STOPPED :: string where
  "STOPPED = ''stopped''"

definition STOP :: string where
  "STOP = ''stop''"

definition STARTED :: string where
  "STARTED = ''started''"

definition START :: string where
  "START = ''start''"

datatype error =
    InvalidJobDefinition string  \<comment> \<open>\<^verbatim>\<open>fmt.Errorf("invalid job definition: %s", ...)\<close>\<close>
  | InvalidJobName string        \<comment> \<open>\<^verbatim>\<open>fmt.Errorf("invalid job name: %s", name)\<close>\<close>
  | CronParseError string        \<comment> \<open>the error of \<^verbatim>\<open>cronexpr.Parse\<close> for this expression\<close>
  | UnknownCommand               \<comment> \<open>\<^verbatim>\<open>fmt.Errorf("unknown command: %s", cmd)\<close>\<close>
  | Eperm                        \<comment> \<open>\<^verbatim>\<open>srv.Eperm\<close>, permission denied\<close>
  | Eexist                       \<comment> \<open>\<^verbatim>\<open>srv.Eexist\<close>, file already exists\<close>
  | OpenError                    \<comment> \<open>the error of \<^verbatim>\<open>os.OpenFile\<close>\<close>
  | WriteError                   \<comment> \<open>the error of \<^verbatim>\<open>fmt.Fprintf\<close> on the file\<close>

subsection \<open>The history ring (container/ring as job.go uses it)\<close>

text \<open>
  \<^verbatim>\<open>ring.New(32)\<close> is a circular list of 32 elements whose values are \<^verbatim>\<open>nil\<close>; a
  \<^verbatim>\<open>*ring.Ring\<close> points at one element. The ring is the list of its slots and the index
  of the element pointed at. \<^verbatim>\<open>Next\<close> moves to the following element, and \<^verbatim>\<open>Do\<close> visits
  every element once, forward, starting at the element pointed at.
\<close>

record ring =
  slots :: "string option list"
  cursor :: nat

definition ring_New :: "nat \<Rightarrow> ring" where
  "ring_New n = \<lparr>slots = replicate n None, cursor = 0\<rparr>"

definition ring_set_Value :: "ring \<Rightarrow> string \<Rightarrow> ring" where
  "ring_set_Value r v = r\<lparr>slots := (slots r)[cursor r := Some v]\<rparr>"

definition ring_Next :: "ring \<Rightarrow> ring" where
  "ring_Next r = r\<lparr>cursor := (cursor r + 1) mod length (slots r)\<rparr>"

definition ring_Do :: "ring \<Rightarrow> string option list" where
  "ring_Do r = rotate (cursor r) (slots r)"

text \<open>
  The two lines with which \<^verbatim>\<open>run\<close> records an entry:
  \<^verbatim>\<open>j.history.Value = e; j.history = j.history.Next()\<close>.
\<close>

definition push :: "ring \<Rightarrow> string \<Rightarrow> ring" where
  "push r e = ring_Next (ring_set_Value r e)"

text \<open>
  The reader of the log file: \<^verbatim>\<open>Do\<close> over the ring, appending the bytes of every value
  that is not \<^verbatim>\<open>nil\<close>.
\<close>

fun append_values :: "string option list \<Rightarrow> string \<Rightarrow> string" where
  "append_values [] result = result"
| "append_values (None # vs) result = append_values vs result"
| "append_values (Some v # vs) result = append_values vs (result @ v)"

definition log_reader :: "ring \<Rightarrow> string" where
  "log_reader h = append_values (ring_Do h) []"

text \<open>The number of slots that hold an entry.\<close>

definition entries :: "ring \<Rightarrow> nat" where
  "entries h = length (filter (\<lambda>v. v \<noteq> None) (slots h))"

subsection \<open>jobfile.Read\<close>

text \<open>
  \<^verbatim>\<open>Read(fid, buf, offset)\<close> gets the reader's output \<open>cont\<close>, the caller's buffer (its
  length is the maximum the caller asked for) and a 64-bit offset. It returns the buffer
  after \<^verbatim>\<open>copy(buf, contout)\<close> and the count \<^verbatim>\<open>len(contout)\<close>. Go's \<^verbatim>\<open>copy\<close> writes
  the first \<open>min (len buf) (len contout)\<close> bytes.
\<close>

definition copy :: "'a list \<Rightarrow> 'a list \<Rightarrow> 'a list \<times> nat" where
  "copy dst src = (let n = min (length dst) (length src) in (take n src @ drop n dst, n))"

definition jobfile_Read :: "string \<Rightarrow> string \<Rightarrow> 64 word \<Rightarrow> string \<times> nat \<times> error option" where
  "jobfile_Read cont buf offset =
     (if unat offset > length cont then (buf, 0, None)
      else let contout = drop (unat offset) cont
           in (fst (copy buf contout), length contout, None))"

subsection \<open>strings.Split, the word class and strings.ToLower\<close>

text \<open>
  \<^verbatim>\<open>strings.Split(s, ":")\<close> cuts \<open>s\<close> at every separator and keeps empty fields, so the
  result has one field more than \<open>s\<close> has separators (the empty string gives one empty
  field).
\<close>

fun Split :: "string \<Rightarrow> char \<Rightarrow> string list" where
  "Split [] sep = [[]]"
| "Split (c # cs) sep =
     (if c = sep then [] # Split cs sep
      else (case Split cs sep of [] \<Rightarrow> [[c]] | f # fs \<Rightarrow> (c # f) # fs))"

text \<open>
  The class \<^verbatim>\<open>[[:word:]]\<close> of Go's regexp is \<^verbatim>\<open>[0-9A-Za-z_]\<close>. A byte of 128 or more
  belongs to a rune outside ASCII (or to an invalid encoding, read as U+FFFD), which is
  not in the class either, so the match can be decided byte by byte.
\<close>

definition is_word :: "char \<Rightarrow> bool" where
  "is_word c =
     (let n = (of_char c :: nat)
      in (48 \<le> n \<and> n \<le> 57) \<or> (65 \<le> n \<and> n \<le> 90) \<or> n = 95 \<or> (97 \<le> n \<and> n \<le> 122))"

text \<open>\<^verbatim>\<open>regexp.MatchString("[^[:word:]]", name)\<close>: some character of the name is not a word character.\<close>

definition MatchString_not_word :: "string \<Rightarrow> bool" where
  "MatchString_not_word nm = list_ex (\<lambda>c. \<not> is_word c) nm"

text \<open>
  \<^verbatim>\<open>strings.ToLower\<close> maps the ASCII letters A to Z to a to z. On a rune outside ASCII
  Go applies the Unicode mapping; the only ASCII letters it can produce there are i and
  k, which occur in neither \<^verbatim>\<open>STOP\<close> nor \<^verbatim>\<open>START\<close>, so the two comparisons of the
  ctl writer are decided by the bytewise mapping below. The text of the unknown-command
  error, which carries the lowered payload, is not modelled.
\<close>

definition lower :: "char \<Rightarrow> char" where
  "lower c = (let n = (of_char c :: nat) in if 65 \<le> n \<and> n \<le> 90 then char_of (n + 32) else c)"

definition ToLower :: "string \<Rightarrow> string" where
  "ToLower s = map lower s"

definition newline :: char where
  "newline = CHR 0x0A"

subsection \<open>Job definitions\<close>

record jobdef =
  name :: string
  schedule :: string
  cmd :: string
  state :: string

text \<open>
  \<^verbatim>\<open>cronexpr.Parse\<close> belongs to a library outside the repository: \<open>Parse\<close> is a parameter
  that says which expressions parse. The pattern of the name check is a constant that
  compiles, so \<^verbatim>\<open>MatchString\<close> returns no error.
\<close>

definition mkJobDefinition :: "(string \<Rightarrow> bool) \<Rightarrow> string \<Rightarrow> string \<Rightarrow> string \<Rightarrow> error + jobdef" where
  "mkJobDefinition Parse nm sched c =
     (if MatchString_not_word nm then Inl (InvalidJobName nm)
      else if \<not> Parse sched then Inl (CronParseError sched)
      else Inr \<lparr>name = nm, schedule = sched, cmd = c, state = STOPPED\<rparr>)"

subsection \<open>Jobs and their files\<close>

text \<open>
  A goroutine executing \<^verbatim>\<open>run\<close> is at one of these places:
  \<^item> \<open>Spawned\<close>: started by \<^verbatim>\<open>go job.run()\<close> and not yet past its first two lines;
  \<^item> \<open>LoopHead\<close>: at the head of the loop, before the schedule is parsed;
  \<^item> \<open>AtSelect\<close>: blocked in the \<^verbatim>\<open>select\<close>;
  \<^item> \<open>Running\<close>: in the timer case, inside \<^verbatim>\<open>k.Run()\<close>;
  \<^item> \<open>Signalled\<close>: past the receive \<^verbatim>\<open><-j.done\<close> and before the two lines that record the
    completion;
  \<^item> \<open>Exited\<close>: returned.
\<close>

datatype pc = Spawned | LoopHead | AtSelect | Running | Signalled | Exited

text \<open>The four files of a job, each a pair of closures over the job built in \<^verbatim>\<open>mkJob\<close>.\<close>

datatype jobfile = Ctl | Sched | Cmd | Log

record job =
  defn :: jobdef
  history :: ring
  tasks :: "pc list"
  files :: "(string \<times> 32 word \<times> jobfile) list"

definition DMDIR :: "32 word" where
  "DMDIR = 0x80000000"

text \<open>
  Modelled from the spec: \<^verbatim>\<open>srv.File.Add\<close> of the go9p library, which the sources only
  call. The spec says that nodes are added via \<^verbatim>\<open>add(parent, name, owner, mode, reader,
  writer)\<close>, which fails if the name already exists under the parent, and that children
  are ordered by insertion. The first argument is the list of the parent's children.
\<close>

definition File_Add :: "(string \<times> 32 word \<times> 'a) list \<Rightarrow> string \<Rightarrow> 32 word \<Rightarrow> 'a \<Rightarrow> error + (string \<times> 32 word \<times> 'a) list" where
  "File_Add children nm mode ops =
     (if nm \<in> set (map fst children) then Inl Eexist else Inr (children @ [(nm, mode, ops)]))"

text \<open>Octal \<^verbatim>\<open>0666\<close> is 438, \<^verbatim>\<open>0444\<close> is 292 and \<^verbatim>\<open>0555\<close> is 365.\<close>

definition mkJob :: "jobdef \<Rightarrow> error + job" where
  "mkJob d =
     (let job = \<lparr>defn = d, history = ring_New 32, tasks = [], files = []\<rparr> in
      case File_Add (files job) ''ctl'' 438 Ctl of
        Inl err \<Rightarrow> Inl err
      | Inr fs1 \<Rightarrow>
          (case File_Add fs1 ''schedule'' 292 Sched of
             Inl err \<Rightarrow> Inl err
           | Inr fs2 \<Rightarrow>
               (case File_Add fs2 ''cmd'' 292 Cmd of
                  Inl err \<Rightarrow> Inl err
                | Inr fs3 \<Rightarrow>
                    (case File_Add fs3 ''log'' 292 Log of
                       Inl err \<Rightarrow> Inl err
                     | Inr fs4 \<Rightarrow> Inr (job\<lparr>files := fs4\<rparr>)))))"

text \<open>
  The readers. \<open>nxt\<close> is the text of \<^verbatim>\<open>e.Next(time.Now())\<close>, which the schedule reader
  formats for a started job.
\<close>

definition reader :: "string \<Rightarrow> jobfile \<Rightarrow> job \<Rightarrow> string" where
  "reader nxt f j =
     (case f of
        Ctl \<Rightarrow> state (defn j)
      | Sched \<Rightarrow>
          (if state (defn j) = STARTED then schedule (defn j) @ '':'' @ nxt
           else schedule (defn j))
      | Cmd \<Rightarrow> cmd (defn j)
      | Log \<Rightarrow> log_reader (history j))"

text \<open>
  \<^verbatim>\<open>job.done <- true\<close> on the unbuffered channel, when the sender arrives: a goroutine
  that is blocked in the \<^verbatim>\<open>select\<close> receives at once and is then past the receive. With
  no goroutine at the \<^verbatim>\<open>select\<close> the result is \<open>None\<close>: the sender has to wait.
\<close>

fun send_done :: "pc list \<Rightarrow> pc list option" where
  "send_done [] = None"
| "send_done (p # ps) =
     (if p = AtSelect then Some (Signalled # ps) else map_option ((#) p) (send_done ps))"

text \<open>
  A call of a writer either has returned its count and error, with the job as the call
  left it, or it is blocked in the send on \<^verbatim>\<open>job.done\<close>, with the job as it is at that
  moment.
\<close>

datatype call = Returned "nat \<times> error option \<times> job" | Blocked job

text \<open>
  The ctl writer. The stop branch sets the state before it sends; when no task is at the
  \<^verbatim>\<open>select\<close> the writer is blocked in the send with the state already \<^verbatim>\<open>stopped\<close>, and
  it returns \<^verbatim>\<open>len(data), nil\<close> after a task has received (the step \<open>Received\<close> below).
\<close>

definition ctl_writer :: "job \<Rightarrow> string \<Rightarrow> call" where
  "ctl_writer j data =
     (let c = ToLower data in
      if c = STOP then
        (if state (defn j) \<noteq> STOPPED then
           (let j' = j\<lparr>defn := (defn j)\<lparr>state := STOPPED\<rparr>\<rparr> in
            case send_done (tasks j') of
              None \<Rightarrow> Blocked j'
            | Some ts \<Rightarrow> Returned (length data, None, j'\<lparr>tasks := ts\<rparr>))
         else Returned (length data, None, j))
      else if c = START then
        (if state (defn j) \<noteq> STARTED then
           Returned (length data, None,
                     j\<lparr>defn := (defn j)\<lparr>state := STARTED\<rparr>, tasks := tasks j @ [Spawned]\<rparr>)
         else Returned (length data, None, j))
      else Returned (0, Some UnknownCommand, j))"

definition writer :: "jobfile \<Rightarrow> job \<Rightarrow> string \<Rightarrow> call" where
  "writer f j data =
     (case f of
        Ctl \<Rightarrow> ctl_writer j data
      | Sched \<Rightarrow> Returned (0, Some Eperm, j)
      | Cmd \<Rightarrow> Returned (0, Some Eperm, j)
      | Log \<Rightarrow> Returned (0, Some Eperm, j))"

text \<open>
  \<^verbatim>\<open>jobfile.Write\<close> calls the file's writer while it holds the lock of the parent, the
  job's directory. The lock decides when the writer runs (see \<open>step\<close>), not what it does.
\<close>

definition jobfile_Write :: "jobfile \<Rightarrow> job \<Rightarrow> string \<Rightarrow> call" where
  "jobfile_Write f j data = writer f j data"

subsection \<open>The scheduler task\<close>

text \<open>
  The result of \<^verbatim>\<open>k.Run()\<close>: an error, or the captured standard output.
\<close>

datatype outcome = Failed | Output string

text \<open>
  The head of the loop of \<^verbatim>\<open>run\<close>: the schedule is parsed again; the task returns when
  it does not parse and blocks in the \<^verbatim>\<open>select\<close> otherwise.
\<close>

definition loop_head :: "(string \<Rightarrow> bool) \<Rightarrow> job \<Rightarrow> pc" where
  "loop_head Parse j = (if Parse (schedule (defn j)) then AtSelect else Exited)"

definition record_entry :: "job \<Rightarrow> string \<Rightarrow> job" where
  "record_entry j e = j\<lparr>history := push (history j) e\<rparr>"

text \<open>
  A job together with the ctl writer that is blocked in the send on the job's channel, if
  there is one: \<open>sender\<close> holds the count that writer returns once a task has received.
  The blocked writer holds the lock of the job's directory.
\<close>

record config =
  the_job :: job
  sender :: "nat option"

text \<open>
  What happens to a job: a ctl write, or a step of its \<open>i\<close>-th goroutine from one of
  the places above to the next. The strings are the values of \<^verbatim>\<open>time.Now().String()\<close>
  at the step.
  \<^item> \<open>Write\<close>: a ctl write takes the lock and runs until it returns or is blocked in the
    send; it cannot start while another writer holds the lock;
  \<^item> \<open>Started\<close>: the entry \<^verbatim>\<open>"<now>:started\n"\<close> is recorded;
  \<^item> \<open>Parsed\<close>: the head of the loop;
  \<^item> \<open>Fired\<close>: the timer case of the \<^verbatim>\<open>select\<close> is taken and the command starts;
  \<^item> \<open>Finished\<close>: \<^verbatim>\<open>k.Run()\<close> returns; the output is recorded when the command succeeded,
    and the loop continues;
  \<^item> \<open>Received\<close>: the task, at the \<^verbatim>\<open>select\<close>, receives from \<^verbatim>\<open>j.done\<close> what the blocked
    writer sends; the writer returns and releases the lock;
  \<^item> \<open>Completed\<close>: after the receive from \<^verbatim>\<open>j.done\<close>, the entry \<^verbatim>\<open>"<now>:completed\n"\<close>
    and the return.
  An event that cannot happen in the configuration gives \<open>None\<close>.
\<close>

datatype event =
    Write string
  | Started nat string
  | Parsed nat
  | Fired nat
  | Finished nat outcome string
  | Received nat
  | Completed nat string

text \<open>The \<open>i\<close>-th goroutine of the job moves to the place \<open>p\<close>.\<close>

definition move :: "job \<Rightarrow> nat \<Rightarrow> pc \<Rightarrow> job" where
  "move j i p = j\<lparr>tasks := (tasks j)[i := p]\<rparr>"

definition at_pc :: "job \<Rightarrow> nat \<Rightarrow> pc \<Rightarrow> bool" where
  "at_pc j i p = (i < length (tasks j) \<and> tasks j ! i = p)"

fun step :: "(string \<Rightarrow> bool) \<Rightarrow> config \<Rightarrow> event \<Rightarrow> config option" where
  "step Parse cf (Write data) =
     (if sender cf \<noteq> None then None
      else (case jobfile_Write Ctl (the_job cf) data of
              Returned r \<Rightarrow> Some (cf\<lparr>the_job := snd (snd r)\<rparr>)
            | Blocked j' \<Rightarrow> Some (cf\<lparr>the_job := j', sender := Some (length data)\<rparr>)))"
| "step Parse cf (Started i now) =
     (if at_pc (the_job cf) i Spawned then
        Some (cf\<lparr>the_job :=
          move (record_entry (the_job cf) (now @ '':started'' @ [newline])) i LoopHead\<rparr>)
      else None)"
| "step Parse cf (Parsed i) =
     (if at_pc (the_job cf) i LoopHead then
        Some (cf\<lparr>the_job := move (the_job cf) i (loop_head Parse (the_job cf))\<rparr>)
      else None)"
| "step Parse cf (Fired i) =
     (if at_pc (the_job cf) i AtSelect then Some (cf\<lparr>the_job := move (the_job cf) i Running\<rparr>)
      else None)"
| "step Parse cf (Finished i res now) =
     (if at_pc (the_job cf) i Running then
        Some (cf\<lparr>the_job :=
          move (case res of
                  Failed \<Rightarrow> the_job cf
                | Output out \<Rightarrow> record_entry (the_job cf) (now @ '':'' @ out)) i LoopHead\<rparr>)
      else None)"
| "step Parse cf (Received i) =
     (if sender cf \<noteq> None \<and> at_pc (the_job cf) i AtSelect then
        Some (cf\<lparr>the_job := move (the_job cf) i Signalled, sender := None\<rparr>)
      else None)"
| "step Parse cf (Completed i now) =
     (if at_pc (the_job cf) i Signalled then
        Some (cf\<lparr>the_job :=
          move (record_entry (the_job cf) (now @ '':completed'' @ [newline])) i Exited\<rparr>)
      else None)"

fun exec :: "(string \<Rightarrow> bool) \<Rightarrow> config \<Rightarrow> event list \<Rightarrow> config option" where
  "exec Parse cf [] = Some cf"
| "exec Parse cf (e # es) =
     (case step Parse cf e of None \<Rightarrow> None | Some cf' \<Rightarrow> exec Parse cf' es)"

text \<open>The entries that an event records in the history, oldest first.\<close>

fun recorded :: "event \<Rightarrow> string list" where
  "recorded (Started i now) = [now @ '':started'' @ [newline]]"
| "recorded (Finished i (Output out) now) = [now @ '':'' @ out]"
| "recorded (Completed i now) = [now @ '':completed'' @ [newline]]"
| "recorded ev = []"

text \<open>A goroutine of the job has not returned yet.\<close>

definition task_present :: "job \<Rightarrow> bool" where
  "task_present j = list_ex (\<lambda>p. p \<noteq> Exited) (tasks j)"

text \<open>
  The goroutines that the stop signal has not reached: those that have neither received
  from \<^verbatim>\<open>j.done\<close> nor returned.
\<close>

definition before_signal :: "pc \<Rightarrow> bool" where
  "before_signal p = (p \<noteq> Signalled \<and> p \<noteq> Exited)"

definition unsignalled :: "job \<Rightarrow> nat" where
  "unsignalled j = length (filter before_signal (tasks j))"

definition is_started :: "job \<Rightarrow> bool" where
  "is_started j = (state (defn j) = STARTED)"

text \<open>
  What every configuration that a validated job reaches satisfies: the schedule parses,
  the state is one of the two constants, a writer is blocked in the send only in state
  \<^verbatim>\<open>stopped\<close>, and one task is before the signal when the job is started or a writer is
  blocked, none otherwise.
\<close>

definition consistent :: "(string \<Rightarrow> bool) \<Rightarrow> config \<Rightarrow> bool" where
  "consistent Parse cf =
     (Parse (schedule (defn (the_job cf))) \<and>
      (state (defn (the_job cf)) = STARTED \<or> state (defn (the_job cf)) = STOPPED) \<and>
      (sender cf = None \<or> state (defn (the_job cf)) = STOPPED) \<and>
      unsignalled (the_job cf) = (if is_started (the_job cf) \<or> sender cf \<noteq> None then 1 else 0))"

subsection \<open>The jobs directory and the clone file\<close>

type_synonym jobsdir = "(string \<times> 32 word \<times> job) list"

definition addJob :: "jobsdir \<Rightarrow> jobdef \<Rightarrow> error + jobsdir" where
  "addJob jd d =
     (case mkJob d of
        Inl err \<Rightarrow> Inl err
      | Inr job \<Rightarrow> File_Add jd (name d) (DMDIR OR 365) job)"

text \<open>
  The daemon's globals: the jobs directory \<^verbatim>\<open>jobsroot\<close> and the contents of the
  definitions file named by \<^verbatim>\<open>jobsdb\<close>.
\<close>

record daemon =
  jobsroot :: jobsdir
  jobsdb :: string

text \<open>
  What the operating system answers during one write: whether \<^verbatim>\<open>os.OpenFile\<close> succeeds,
  and whether the write that \<^verbatim>\<open>fmt.Fprintf\<close> issues on the open file succeeds. A failed
  write is taken to leave the file as it was.
\<close>

record osenv =
  open_ok :: bool
  write_ok :: bool

definition Fprintf :: "osenv \<Rightarrow> string \<Rightarrow> string \<Rightarrow> string \<times> error option" where
  "Fprintf os db text =
     (if write_ok os then (db @ text, None) else (db, Some WriteError))"

definition clonefile_Write :: "(string \<Rightarrow> bool) \<Rightarrow> osenv \<Rightarrow> daemon \<Rightarrow> string \<Rightarrow> nat \<times> error option \<times> daemon" where
  "clonefile_Write Parse os d data =
     (let jdparts = Split data (CHR '':'') in
      if length jdparts \<noteq> 3 then (0, Some (InvalidJobDefinition data), d)
      else
        (case mkJobDefinition Parse (jdparts ! 0) (jdparts ! 1) (jdparts ! 2) of
           Inl err \<Rightarrow> (0, Some err, d)
         | Inr jd \<Rightarrow>
             (case addJob (jobsroot d) jd of
                Inl err \<Rightarrow> (length data, Some err, d)
              | Inr root \<Rightarrow>
                  (if \<not> open_ok os then (length data, Some OpenError, d\<lparr>jobsroot := root\<rparr>)
                   else (length data, None,
                         d\<lparr>jobsroot := root,
                           jobsdb := fst (Fprintf os (jobsdb d) (data @ [newline]))\<rparr>)))))"

subsection \<open>Comparisons the spec speaks of\<close>

text \<open>
  The spec's words for the ctl payload are ``equal (case-insensitively) to the literal''.
  \<open>equal_ignoring_case\<close> states that by itself, without lowering either side: the two
  strings have the same length and agree position by position up to the case of an ASCII
  letter.
\<close>

definition is_upper :: "char \<Rightarrow> bool" where
  "is_upper c = (65 \<le> (of_char c :: nat) \<and> (of_char c :: nat) \<le> 90)"

definition same_letter :: "char \<Rightarrow> char \<Rightarrow> bool" where
  "same_letter a b =
     (a = b \<or> (is_upper a \<and> (of_char b :: nat) = of_char a + 32)
            \<or> (is_upper b \<and> (of_char a :: nat) = of_char b + 32))"

definition equal_ignoring_case :: "string \<Rightarrow> string \<Rightarrow> bool" where
  "equal_ignoring_case s t = list_all2 same_letter s t"

text \<open>ASCII white space: tab, line feed, vertical tab, form feed, carriage return, space.\<close>

definition is_space :: "char \<Rightarrow> bool" where
  "is_space c = ((9 \<le> (of_char c :: nat) \<and> (of_char c :: nat) \<le> 13) \<or> (of_char c :: nat) = 32)"

section \<open>The history ring holds the last 32 entries\<close>

lemma push_slots_length: "length (slots (push r e)) = length (slots r)"
  by (simp add: push_def ring_Next_def ring_set_Value_def)

lemma push_cursor_bound:
  "0 < length (slots r) \<Longrightarrow> cursor (push r e) < length (slots (push r e))"
  by (simp add: push_def ring_Next_def ring_set_Value_def)

lemma ring_Do_push:
  assumes "cursor r < length (slots r)"
  shows "ring_Do (push r e) = tl (ring_Do r) @ [Some e]"
proof -
  let ?xs = "slots r" and ?c = "cursor r"
  have len: "length (?xs[?c := Some e]) = length ?xs" by simp
  have upd: "?xs[?c := Some e] = take ?c ?xs @ Some e # drop (Suc ?c) ?xs"
    using assms by (rule upd_conv_take_nth_drop)
  have old: "ring_Do r = drop ?c ?xs @ take ?c ?xs"
    using assms by (simp add: ring_Do_def rotate_drop_take)
  have dr: "drop ?c ?xs = ?xs ! ?c # drop (Suc ?c) ?xs"
    using assms by (simp add: Cons_nth_drop_Suc)
  show ?thesis
  proof (cases "Suc ?c = length ?xs")
    case True
    then have "ring_Do (push r e) = ?xs[?c := Some e]"
      by (simp add: ring_Do_def push_def ring_Next_def ring_set_Value_def)
    with True upd old dr show ?thesis by simp
  next
    case False
    with assms have lt: "Suc ?c < length ?xs" by simp
    then have "ring_Do (push r e) = drop (Suc ?c) (?xs[?c := Some e]) @ take (Suc ?c) (?xs[?c := Some e])"
      by (simp add: ring_Do_def push_def ring_Next_def ring_set_Value_def rotate_drop_take)
    also have "\<dots> = drop (Suc ?c) ?xs @ take ?c ?xs @ [Some e]"
      using lt by (simp add: take_Suc_conv_app_nth)
    finally show ?thesis using old dr by simp
  qed
qed

lemma pushes_shape:
  "0 < n \<Longrightarrow> length (slots (foldl push (ring_New n) es)) = n \<and> cursor (foldl push (ring_New n) es) < n"
proof (induction es rule: rev_induct)
  case Nil
  then show ?case by (simp add: ring_New_def)
next
  case (snoc e es)
  then show ?case using push_cursor_bound [of "foldl push (ring_New n) es" e]
    by (simp add: push_slots_length)
qed

lemma ring_Do_pushes:
  "0 < n \<Longrightarrow> ring_Do (foldl push (ring_New n) es) = drop (length es) (replicate n None @ map Some es)"
proof (induction es rule: rev_induct)
  case Nil
  then show ?case by (simp add: ring_New_def ring_Do_def)
next
  case (snoc e es)
  let ?r = "foldl push (ring_New n) es"
  have "cursor ?r < length (slots ?r)" using pushes_shape [OF snoc.prems, of es] by simp
  then have "ring_Do (push ?r e) = tl (ring_Do ?r) @ [Some e]" by (rule ring_Do_push)
  also have "\<dots> = tl (drop (length es) (replicate n None @ map Some es)) @ [Some e]"
    using snoc by simp
  also have "\<dots> = drop (Suc (length es)) (replicate n None @ map Some es) @ [Some e]"
    by (simp only: drop_Suc tl_drop)
  also have "\<dots> = drop (Suc (length es)) (replicate n None @ map Some (es @ [e]))"
    using snoc.prems by simp
  finally show ?case by simp
qed

lemma append_values_concat:
  "append_values vs acc = acc @ concat (map (\<lambda>v. case v of None \<Rightarrow> [] | Some s \<Rightarrow> s) vs)"
  by (induction vs acc rule: append_values.induct) simp_all

lemma log_reader_pushes:
  "log_reader (foldl push (ring_New 32) es) = concat (drop (length es - 32) es)"
proof -
  let ?f = "\<lambda>v. case v of None \<Rightarrow> [] | Some s \<Rightarrow> (s::string)"
  have pad: "concat (map ?f (replicate k None)) = []" for k
    by (induction k) simp_all
  have som: "map ?f (map Some xs) = xs" for xs
    by (induction xs) simp_all
  have "log_reader (foldl push (ring_New 32) es)
      = concat (map ?f (drop (length es) (replicate 32 None @ map Some es)))"
    by (simp add: log_reader_def ring_Do_pushes append_values_concat)
  also have "\<dots> = concat (map ?f (replicate (32 - length es) None)) @ concat (map ?f (map Some (drop (length es - 32) es)))"
    by (simp add: drop_map)
  also have "\<dots> = concat (drop (length es - 32) es)"
    by (simp only: pad som append_Nil)
  finally show ?thesis .
qed

lemma filter_rotate_length:
  "length (filter P (rotate k xs)) = length (filter P xs)"
proof -
  have "length (filter P (drop m xs)) + length (filter P (take m xs)) = length (filter P xs)" for m
    by (metis add.commute append_take_drop_id filter_append length_append)
  then show ?thesis by (simp add: rotate_drop_take)
qed

lemma entries_pushes:
  "entries (foldl push (ring_New 32) es) = min (length es) 32"
proof -
  let ?r = "foldl push (ring_New 32) es"
  have "entries ?r = length (filter (\<lambda>v. v \<noteq> None) (ring_Do ?r))"
    by (simp add: entries_def ring_Do_def filter_rotate_length)
  also have "\<dots> = length (filter (\<lambda>v. v \<noteq> None) (drop (length es) (replicate 32 None @ map Some es)))"
    by (simp add: ring_Do_pushes)
  also have "\<dots> = length (filter (\<lambda>v. v \<noteq> None) (map Some (drop (length es - 32) es)))"
    by (simp add: drop_map)
  also have "\<dots> = length (drop (length es - 32) es)"
    by (simp add: filter_map comp_def)
  also have "\<dots> = min (length es) 32" by simp
  finally show ?thesis .
qed

lemma mkJob_ok: "mkJob d = Inr \<lparr>defn = d, history = ring_New 32, tasks = [],
    files = [(''ctl'', 438, Ctl), (''schedule'', 292, Sched), (''cmd'', 292, Cmd), (''log'', 292, Log)]\<rparr>"
  by (simp add: mkJob_def File_Add_def)

lemma history_record_entries:
  "history (foldl record_entry j es) = foldl push (history j) es"
  by (induction es rule: rev_induct) (simp_all add: record_entry_def)

text \<open>
  C4. A job made by \<^verbatim>\<open>mkJob\<close> has a history of 32 empty slots. After any entries \<open>es\<close>
  have been recorded, in this order, the history holds \<open>min (length es) 32\<close> entries, so
  at most 32, and the reader of the log file returns the last \<open>min (length es) 32\<close> of
  them concatenated, oldest first; the empty slots contribute nothing.
\<close>

theorem log_holds_last_32:
  "mkJob d = Inr j \<Longrightarrow>
     entries (history (foldl record_entry j es)) \<le> 32 \<and>
     entries (history (foldl record_entry j es)) = min (length es) 32 \<and>
     reader nxt Log (foldl record_entry j es) = concat (drop (length es - min (length es) 32) es)"
proof -
  assume "mkJob d = Inr j"
  then have h: "history j = ring_New 32" by (auto simp: mkJob_ok)
  have m: "length es - min (length es) 32 = length es - 32" by simp
  show ?thesis
    by (simp only: history_record_entries h entries_pushes reader_def jobfile.case log_reader_pushes m) simp
qed

theorem log_holds_last_32_witness:
  "mkJob \<lparr>name = ''hello'', schedule = ''* * * * *'', cmd = ''echo hi'', state = STOPPED\<rparr>
     = Inr \<lparr>defn = \<lparr>name = ''hello'', schedule = ''* * * * *'', cmd = ''echo hi'', state = STOPPED\<rparr>,
            history = ring_New 32, tasks = [],
            files = [(''ctl'', 438, Ctl), (''schedule'', 292, Sched), (''cmd'', 292, Cmd), (''log'', 292, Log)]\<rparr> \<and>
   entries (history (foldl record_entry
       \<lparr>defn = \<lparr>name = ''hello'', schedule = ''* * * * *'', cmd = ''echo hi'', state = STOPPED\<rparr>,
        history = ring_New 32, tasks = [],
        files = [(''ctl'', 438, Ctl), (''schedule'', 292, Sched), (''cmd'', 292, Cmd), (''log'', 292, Log)]\<rparr>
       (''a'' # replicate 31 ''x'' @ [''yz'']))) = 32 \<and>
   reader [] Log (foldl record_entry
       \<lparr>defn = \<lparr>name = ''hello'', schedule = ''* * * * *'', cmd = ''echo hi'', state = STOPPED\<rparr>,
        history = ring_New 32, tasks = [],
        files = [(''ctl'', 438, Ctl), (''schedule'', 292, Sched), (''cmd'', 292, Cmd), (''log'', 292, Log)]\<rparr>
       (''a'' # replicate 31 ''x'' @ [''yz''])) = replicate 31 (CHR ''x'') @ ''yz''"
proof -
  have mk: "mkJob \<lparr>name = ''hello'', schedule = ''* * * * *'', cmd = ''echo hi'', state = STOPPED\<rparr>
     = Inr \<lparr>defn = \<lparr>name = ''hello'', schedule = ''* * * * *'', cmd = ''echo hi'', state = STOPPED\<rparr>,
            history = ring_New 32, tasks = [],
            files = [(''ctl'', 438, Ctl), (''schedule'', 292, Sched), (''cmd'', 292, Cmd), (''log'', 292, Log)]\<rparr>"
    by (rule mkJob_ok)
  have c: "concat (replicate n [x]) = replicate n x" for n and x :: char
    by (induction n) simp_all
  show ?thesis
    using log_holds_last_32 [OF mk, of "''a'' # replicate 31 ''x'' @ [''yz'']" "[]"] mk
    by (simp add: c)
qed

text \<open>
  The same for the entries that the tasks of a job record: a ctl write records nothing,
  and after any writes and task steps the log file holds the last 32 entries recorded.
\<close>

lemma ctl_writer_history:
  "ctl_writer j data = Returned (n, e, j') \<or> ctl_writer j data = Blocked j' \<Longrightarrow>
     history j' = history j"
  by (auto simp: ctl_writer_def Let_def split: if_splits option.splits)

lemma step_history:
  "step Parse cf ev = Some cf' \<Longrightarrow>
     history (the_job cf') = foldl push (history (the_job cf)) (recorded ev)"
proof (cases ev)
  case (Write data)
  assume "step Parse cf ev = Some cf'"
  with Write have "(\<exists>n e. ctl_writer (the_job cf) data = Returned (n, e, the_job cf')) \<or>
      ctl_writer (the_job cf) data = Blocked (the_job cf')"
    by (auto simp: jobfile_Write_def writer_def split: if_splits call.splits)
  then have "history (the_job cf') = history (the_job cf)"
    using ctl_writer_history by blast
  with Write show ?thesis by simp
next
  case (Finished i res now)
  assume "step Parse cf ev = Some cf'"
  with Finished show ?thesis
    by (cases res) (auto simp: move_def record_entry_def split: if_splits)
qed (auto simp: move_def record_entry_def split: if_splits)

lemma exec_history:
  "exec Parse cf evs = Some cf' \<Longrightarrow>
     history (the_job cf') = foldl push (history (the_job cf)) (concat (map recorded evs))"
proof (induction evs arbitrary: cf)
  case Nil
  then show ?case by simp
next
  case (Cons ev evs)
  from Cons.prems obtain k where k: "step Parse cf ev = Some k" and rest: "exec Parse k evs = Some cf'"
    by (auto split: option.splits)
  from Cons.IH [OF rest] step_history [OF k] show ?case by simp
qed

lemma log_after_events:
  assumes "mkJob d = Inr j0" and "exec Parse \<lparr>the_job = j0, sender = None\<rparr> evs = Some cf"
  shows "reader nxt Log (the_job cf) =
           concat (drop (length (concat (map recorded evs)) - 32) (concat (map recorded evs)))"
proof -
  from assms(1) have "history j0 = ring_New 32" by (auto simp: mkJob_ok)
  with exec_history [OF assms(2)] show ?thesis
    by (simp add: reader_def log_reader_pushes)
qed

section \<open>Job definitions, the jobs directory and the clone file\<close>

lemma Split_not_Nil: "Split s sep \<noteq> []"
  by (induction s) (auto split: list.splits)

lemma length_Split: "length (Split s sep) = Suc (length (filter (\<lambda>c. c = sep) s))"
  by (induction s) (auto split: list.splits simp: Split_not_Nil)

lemma MatchString_not_word_iff: "MatchString_not_word nm \<longleftrightarrow> (\<exists>c \<in> set nm. \<not> is_word c)"
  by (simp add: MatchString_not_word_def list_ex_iff)

lemma mkJobDefinition_Inr:
  "mkJobDefinition Parse nm sched c = Inr d \<Longrightarrow>
     Parse sched \<and> \<not> MatchString_not_word nm \<and>
     d = \<lparr>name = nm, schedule = sched, cmd = c, state = STOPPED\<rparr>"
  by (auto simp: mkJobDefinition_def split: if_splits)

text \<open>
  \<^verbatim>\<open>mkJob\<close> adds its four files to a fresh node, so none of the additions fails; what
  \<^verbatim>\<open>addJob\<close> returns depends only on the names already in the jobs directory.
\<close>

lemma addJob_cases:
  "addJob jd d = (if name d \<in> fst ` set jd then Inl Eexist
                  else Inr (jd @ [(name d, DMDIR OR 365,
                    \<lparr>defn = d, history = ring_New 32, tasks = [],
                     files = [(''ctl'', 438, Ctl), (''schedule'', 292, Sched), (''cmd'', 292, Cmd),
                              (''log'', 292, Log)]\<rparr>)]))"
  by (simp add: addJob_def mkJob_ok File_Add_def)

text \<open>
  When the clone file rejects a payload with count 0: the payload does not split into
  three fields, the first field holds a character outside the word class, or the second
  field does not parse. An empty first field holds no such character.
\<close>

lemma clonefile_Write_rejects_iff:
  "(\<exists>e. clonefile_Write Parse os dm data = (0, Some e, dm)) \<longleftrightarrow>
     length (Split data (CHR '':'')) \<noteq> 3 \<or>
     MatchString_not_word (Split data (CHR '':'') ! 0) \<or>
     \<not> Parse (Split data (CHR '':'') ! 1)"
proof (cases "length (Split data (CHR '':'')) = 3")
  case False
  then show ?thesis by (simp add: clonefile_Write_def)
next
  case True
  then have "length (filter (\<lambda>c. c = CHR '':'') data) = 2"
    by (simp add: length_Split)
  then have "data \<noteq> []" by auto
  with True show ?thesis
    by (auto simp: clonefile_Write_def mkJobDefinition_def addJob_cases Let_def)
qed

text \<open>
  C1. The claim has every payload whose name field is not a non-empty string of word
  characters rejected. The payload \<^verbatim>\<open>:* * * * *:true\<close> splits into three fields with an
  empty name; the name check looks for a character outside the word class, finds none,
  and the write registers a job with the empty name, appends the line and returns the
  length of the payload with no error. (\<open>Parse\<close> is instantiated with a parser that accepts
  the expression \<^verbatim>\<open>* * * * *\<close>.)
\<close>

theorem empty_job_name_accepted:
  "clonefile_Write ((=) ''* * * * *'') \<lparr>open_ok = True, write_ok = True\<rparr>
       \<lparr>jobsroot = [], jobsdb = []\<rparr> '':* * * * *:true''
     = (15, None,
        \<lparr>jobsroot = [([], DMDIR OR 365,
            \<lparr>defn = \<lparr>name = [], schedule = ''* * * * *'', cmd = ''true'', state = STOPPED\<rparr>,
             history = ring_New 32, tasks = [],
             files = [(''ctl'', 438, Ctl), (''schedule'', 292, Sched), (''cmd'', 292, Cmd),
                      (''log'', 292, Log)]\<rparr>)],
         jobsdb = '':* * * * *:true'' @ [newline]\<rparr>)"
  by (simp add: clonefile_Write_def mkJobDefinition_def MatchString_not_word_def addJob_cases
      Fprintf_def)

text \<open>
  C5. A payload that splits into three fields and passes \<^verbatim>\<open>mkJobDefinition\<close>, with a name
  that a child of the jobs directory already has: \<^verbatim>\<open>addJob\<close> fails with the error of the
  duplicate name, the clone write returns that error, and the daemon's state after the
  write is the state before it: the jobs directory with every job in it (its files,
  state, history and tasks) and the definitions file are unchanged.
\<close>

theorem duplicate_name_rejected:
  "Split data (CHR '':'') = [nm, sched, c] \<Longrightarrow>
   mkJobDefinition Parse nm sched c = Inr d \<Longrightarrow>
   name d \<in> fst ` set (jobsroot dm) \<Longrightarrow>
     addJob (jobsroot dm) d = Inl Eexist \<and>
     clonefile_Write Parse os dm data = (length data, Some Eexist, dm)"
  by (simp add: clonefile_Write_def addJob_cases)

theorem duplicate_name_rejected_witness:
  "Split ''hello:* * * * *:echo hi'' (CHR '':'') = [''hello'', ''* * * * *'', ''echo hi''] \<and>
   mkJobDefinition ((=) ''* * * * *'') ''hello'' ''* * * * *'' ''echo hi''
     = Inr \<lparr>name = ''hello'', schedule = ''* * * * *'', cmd = ''echo hi'', state = STOPPED\<rparr> \<and>
   clonefile_Write ((=) ''* * * * *'') \<lparr>open_ok = True, write_ok = True\<rparr>
       \<lparr>jobsroot = [(''hello'', DMDIR OR 365,
            \<lparr>defn = \<lparr>name = ''hello'', schedule = ''* * * * *'', cmd = ''echo hi'', state = STARTED\<rparr>,
             history = push (ring_New 32) ''t0:started'', tasks = [AtSelect],
             files = [(''ctl'', 438, Ctl), (''schedule'', 292, Sched), (''cmd'', 292, Cmd),
                      (''log'', 292, Log)]\<rparr>)],
        jobsdb = ''hello:* * * * *:echo hi'' @ [newline]\<rparr>
       ''hello:* * * * *:echo hi''
     = (23, Some Eexist,
        \<lparr>jobsroot = [(''hello'', DMDIR OR 365,
            \<lparr>defn = \<lparr>name = ''hello'', schedule = ''* * * * *'', cmd = ''echo hi'', state = STARTED\<rparr>,
             history = push (ring_New 32) ''t0:started'', tasks = [AtSelect],
             files = [(''ctl'', 438, Ctl), (''schedule'', 292, Sched), (''cmd'', 292, Cmd),
                      (''log'', 292, Log)]\<rparr>)],
         jobsdb = ''hello:* * * * *:echo hi'' @ [newline]\<rparr>)"
proof -
  have s: "Split ''hello:* * * * *:echo hi'' (CHR '':'') = [''hello'', ''* * * * *'', ''echo hi'']"
    by simp
  have m: "mkJobDefinition ((=) ''* * * * *'') ''hello'' ''* * * * *'' ''echo hi''
     = Inr \<lparr>name = ''hello'', schedule = ''* * * * *'', cmd = ''echo hi'', state = STOPPED\<rparr>"
    by (simp add: mkJobDefinition_def MatchString_not_word_def is_word_def)
  show ?thesis
    using duplicate_name_rejected [OF s m, where os = "\<lparr>open_ok = True, write_ok = True\<rparr>" and dm = "\<lparr>jobsroot = [(''hello'', DMDIR OR 365,
            \<lparr>defn = \<lparr>name = ''hello'', schedule = ''* * * * *'', cmd = ''echo hi'', state = STARTED\<rparr>,
             history = push (ring_New 32) ''t0:started'', tasks = [AtSelect],
             files = [(''ctl'', 438, Ctl), (''schedule'', 292, Sched), (''cmd'', 292, Cmd),
                      (''log'', 292, Log)]\<rparr>)],
        jobsdb = ''hello:* * * * *:echo hi'' @ [newline]\<rparr>"] s m
    by simp
qed

text \<open>No clone write makes two children of the jobs directory share a name.\<close>

lemma clonefile_Write_names_distinct:
  assumes "distinct (map fst (jobsroot dm))"
  shows "distinct (map fst (jobsroot (snd (snd (clonefile_Write Parse os dm data)))))"
  using assms
  by (auto simp: clonefile_Write_def addJob_cases Let_def split: sum.splits if_splits)

text \<open>
  C6. The claim has a clone write that registers the job report success only if the
  append succeeded. The write checks the error of \<^verbatim>\<open>os.OpenFile\<close> and drops the result
  of \<^verbatim>\<open>fmt.Fprintf\<close>: when the file opens and the write to it fails, the job is
  registered, the file holds no line for it, and the clone write returns the length of
  the payload with no error.
\<close>

theorem failed_append_reported_as_success:
  "clonefile_Write ((=) ''* * * * *'') \<lparr>open_ok = True, write_ok = False\<rparr>
       \<lparr>jobsroot = [], jobsdb = []\<rparr> ''a:* * * * *:true''
     = (16, None,
        \<lparr>jobsroot = [(''a'', DMDIR OR 365,
            \<lparr>defn = \<lparr>name = ''a'', schedule = ''* * * * *'', cmd = ''true'', state = STOPPED\<rparr>,
             history = ring_New 32, tasks = [],
             files = [(''ctl'', 438, Ctl), (''schedule'', 292, Sched), (''cmd'', 292, Cmd),
                      (''log'', 292, Log)]\<rparr>)],
         jobsdb = []\<rparr>)"
  by (simp add: clonefile_Write_def mkJobDefinition_def MatchString_not_word_def is_word_def
      addJob_cases Fprintf_def)

section \<open>Reading a job file\<close>

text \<open>
  At or past the end of the reader's output the count is 0 and the buffer is untouched;
  before the end the count is the number of bytes from the offset to the end of the
  output, whatever the length of the buffer.
\<close>

lemma jobfile_Read_past_end:
  "length cont \<le> unat offset \<Longrightarrow> jobfile_Read cont buf offset = (buf, 0, None)"
  by (simp add: jobfile_Read_def copy_def)

lemma jobfile_Read_count:
  "unat offset \<le> length cont \<Longrightarrow>
     jobfile_Read cont buf offset =
       (take (length buf) (drop (unat offset) cont) @ drop (length cont - unat offset) buf,
        length cont - unat offset, None)"
  by (simp add: jobfile_Read_def copy_def Let_def min_def)

text \<open>
  C3. The claim has the count never exceed the requested maximum. With the output
  \<^verbatim>\<open>stopped\<close> of the ctl reader, a buffer of three bytes and offset 0, three bytes are
  copied and the count returned is 7.
\<close>

theorem read_count_exceeds_buffer:
  "jobfile_Read ''stopped'' ''xxx'' 0 = (''sto'', 7, None)"
  by (simp add: jobfile_Read_def copy_def)

section \<open>The ctl file and the read-only files\<close>

text \<open>Lowering both sides decides the spec's comparison.\<close>

lemma of_char_lower:
  "(of_char (lower c) :: nat) = (if is_upper c then of_char c + 32 else of_char c)"
  by (simp add: lower_def is_upper_def Let_def)

lemma same_letter_lower: "same_letter a b \<longleftrightarrow> lower a = lower b"
proof -
  define n m where "n = (of_char a :: nat)" and "m = (of_char b :: nat)"
  have eq: "a = b \<longleftrightarrow> n = m"
    by (simp add: n_def m_def)
  have "lower a = lower b \<longleftrightarrow> (of_char (lower a) :: nat) = of_char (lower b)"
    by simp
  then have low: "lower a = lower b \<longleftrightarrow>
      (if 65 \<le> n \<and> n \<le> 90 then n + 32 else n) = (if 65 \<le> m \<and> m \<le> 90 then m + 32 else m)"
    by (simp only: of_char_lower is_upper_def n_def m_def)
  have "same_letter a b \<longleftrightarrow>
      (n = m \<or> (65 \<le> n \<and> n \<le> 90 \<and> m = n + 32) \<or> (65 \<le> m \<and> m \<le> 90 \<and> n = m + 32))"
    by (simp only: same_letter_def is_upper_def eq n_def m_def conj_assoc)
  also have "\<dots> \<longleftrightarrow> lower a = lower b"
    unfolding low by presburger
  finally show ?thesis .
qed

lemma equal_ignoring_case_ToLower:
  "equal_ignoring_case s t \<longleftrightarrow> ToLower s = ToLower t"
  unfolding equal_ignoring_case_def ToLower_def
  by (induction s arbitrary: t) (auto simp: list_all2_Cons1 same_letter_lower)

lemma ToLower_START: "ToLower START = START"
  by (simp add: ToLower_def START_def lower_def)

lemma ToLower_STOP: "ToLower STOP = STOP"
  by (simp add: ToLower_def STOP_def lower_def)

lemma equal_ignoring_case_START: "equal_ignoring_case data START \<longleftrightarrow> ToLower data = START"
  by (simp add: equal_ignoring_case_ToLower ToLower_START)

lemma equal_ignoring_case_STOP: "equal_ignoring_case data STOP \<longleftrightarrow> ToLower data = STOP"
  by (simp add: equal_ignoring_case_ToLower ToLower_STOP)

lemma START_neq_STOP: "START \<noteq> STOP"
  by (simp add: START_def STOP_def)

text \<open>
  C7. A ctl write whose payload is equal, ignoring case, to neither \<^verbatim>\<open>start\<close> nor
  \<^verbatim>\<open>stop\<close> returns: its count is 0, its error is the unknown-command error, and the job
  (state, history, tasks) is as before.
\<close>

theorem ctl_unknown_command:
  "\<not> equal_ignoring_case data START \<Longrightarrow> \<not> equal_ignoring_case data STOP \<Longrightarrow>
     jobfile_Write Ctl j data = Returned (0, Some UnknownCommand, j)"
  by (simp add: equal_ignoring_case_START equal_ignoring_case_STOP jobfile_Write_def writer_def
      ctl_writer_def)

theorem ctl_unknown_command_witness:
  "\<not> equal_ignoring_case ''restart'' START \<and> \<not> equal_ignoring_case ''restart'' STOP \<and>
   jobfile_Write Ctl
       \<lparr>defn = \<lparr>name = ''hello'', schedule = ''* * * * *'', cmd = ''echo hi'', state = STARTED\<rparr>,
        history = push (ring_New 32) (''t0:started'' @ [newline]), tasks = [AtSelect],
        files = [(''ctl'', 438, Ctl), (''schedule'', 292, Sched), (''cmd'', 292, Cmd), (''log'', 292, Log)]\<rparr>
       ''restart''
     = Returned (0, Some UnknownCommand,
        \<lparr>defn = \<lparr>name = ''hello'', schedule = ''* * * * *'', cmd = ''echo hi'', state = STARTED\<rparr>,
         history = push (ring_New 32) (''t0:started'' @ [newline]), tasks = [AtSelect],
         files = [(''ctl'', 438, Ctl), (''schedule'', 292, Sched), (''cmd'', 292, Cmd), (''log'', 292, Log)]\<rparr>)"
proof -
  have a: "\<not> equal_ignoring_case ''restart'' START"
    by (simp add: equal_ignoring_case_def START_def)
  have b: "\<not> equal_ignoring_case ''restart'' STOP"
    by (simp add: equal_ignoring_case_def STOP_def)
  show ?thesis using ctl_unknown_command [OF a b] a b by simp
qed

text \<open>
  C8. A write of any payload to the schedule, cmd or log file of any job returns count 0
  with the permission error, and the job (definition, state, history, tasks) is as
  before.
\<close>

theorem read_only_files_reject_writes:
  "jobfile_Write Sched j data = Returned (0, Some Eperm, j) \<and>
   jobfile_Write Cmd j data = Returned (0, Some Eperm, j) \<and>
   jobfile_Write Log j data = Returned (0, Some Eperm, j)"
  by (simp add: jobfile_Write_def writer_def)

text \<open>
  C9. A ctl write of \<^verbatim>\<open>start\<close> (in any case) to a started job, or of \<^verbatim>\<open>stop\<close> to a
  stopped job, returns the length of the payload with no error and leaves the job as it
  was: state, history and tasks, so no task is spawned. And whenever a ctl write has
  returned, the same write again returns the same count and error and changes nothing
  more: two consecutive identical writes have the effect of one.
\<close>

theorem ctl_repeated_command:
  "(state (defn j) = STARTED \<and> equal_ignoring_case data START \<or>
    state (defn j) = STOPPED \<and> equal_ignoring_case data STOP \<longrightarrow>
      jobfile_Write Ctl j data = Returned (length data, None, j)) \<and>
   (jobfile_Write Ctl j data = Returned (n, e, j') \<longrightarrow>
      jobfile_Write Ctl j' data = Returned (n, e, j'))"
proof (intro conjI impI)
  assume "state (defn j) = STARTED \<and> equal_ignoring_case data START \<or>
    state (defn j) = STOPPED \<and> equal_ignoring_case data STOP"
  then show "jobfile_Write Ctl j data = Returned (length data, None, j)"
    using START_neq_STOP
    by (auto simp: equal_ignoring_case_START equal_ignoring_case_STOP jobfile_Write_def
        writer_def ctl_writer_def)
next
  assume "jobfile_Write Ctl j data = Returned (n, e, j')"
  then show "jobfile_Write Ctl j' data = Returned (n, e, j')"
    using START_neq_STOP
    by (auto simp: jobfile_Write_def writer_def ctl_writer_def Let_def
        split: if_splits option.splits)
qed

theorem ctl_repeated_command_witness:
  "state (defn
       \<lparr>defn = \<lparr>name = ''hello'', schedule = ''* * * * *'', cmd = ''echo hi'', state = STARTED\<rparr>,
        history = push (ring_New 32) (''t0:started'' @ [newline]), tasks = [AtSelect],
        files = [(''ctl'', 438, Ctl), (''schedule'', 292, Sched), (''cmd'', 292, Cmd), (''log'', 292, Log)]\<rparr>)
     = STARTED \<and>
   equal_ignoring_case ''Start'' START \<and>
   jobfile_Write Ctl
       \<lparr>defn = \<lparr>name = ''hello'', schedule = ''* * * * *'', cmd = ''echo hi'', state = STARTED\<rparr>,
        history = push (ring_New 32) (''t0:started'' @ [newline]), tasks = [AtSelect],
        files = [(''ctl'', 438, Ctl), (''schedule'', 292, Sched), (''cmd'', 292, Cmd), (''log'', 292, Log)]\<rparr>
       ''Start''
     = Returned (5, None,
        \<lparr>defn = \<lparr>name = ''hello'', schedule = ''* * * * *'', cmd = ''echo hi'', state = STARTED\<rparr>,
         history = push (ring_New 32) (''t0:started'' @ [newline]), tasks = [AtSelect],
         files = [(''ctl'', 438, Ctl), (''schedule'', 292, Sched), (''cmd'', 292, Cmd), (''log'', 292, Log)]\<rparr>) \<and>
   jobfile_Write Ctl
       \<lparr>defn = \<lparr>name = ''hello'', schedule = ''* * * * *'', cmd = ''echo hi'', state = STARTED\<rparr>,
        history = push (ring_New 32) (''t0:started'' @ [newline]), tasks = [AtSelect],
        files = [(''ctl'', 438, Ctl), (''schedule'', 292, Sched), (''cmd'', 292, Cmd), (''log'', 292, Log)]\<rparr>
       ''STOP''
     = Returned (4, None,
        \<lparr>defn = \<lparr>name = ''hello'', schedule = ''* * * * *'', cmd = ''echo hi'', state = STOPPED\<rparr>,
         history = push (ring_New 32) (''t0:started'' @ [newline]), tasks = [Signalled],
         files = [(''ctl'', 438, Ctl), (''schedule'', 292, Sched), (''cmd'', 292, Cmd), (''log'', 292, Log)]\<rparr>) \<and>
   jobfile_Write Ctl
       \<lparr>defn = \<lparr>name = ''hello'', schedule = ''* * * * *'', cmd = ''echo hi'', state = STOPPED\<rparr>,
        history = push (ring_New 32) (''t0:started'' @ [newline]), tasks = [Signalled],
        files = [(''ctl'', 438, Ctl), (''schedule'', 292, Sched), (''cmd'', 292, Cmd), (''log'', 292, Log)]\<rparr>
       ''STOP''
     = Returned (4, None,
        \<lparr>defn = \<lparr>name = ''hello'', schedule = ''* * * * *'', cmd = ''echo hi'', state = STOPPED\<rparr>,
         history = push (ring_New 32) (''t0:started'' @ [newline]), tasks = [Signalled],
         files = [(''ctl'', 438, Ctl), (''schedule'', 292, Sched), (''cmd'', 292, Cmd), (''log'', 292, Log)]\<rparr>)"
proof -
  let ?j = "\<lparr>defn = \<lparr>name = ''hello'', schedule = ''* * * * *'', cmd = ''echo hi'', state = STARTED\<rparr>,
        history = push (ring_New 32) (''t0:started'' @ [newline]), tasks = [AtSelect],
        files = [(''ctl'', 438, Ctl), (''schedule'', 292, Sched), (''cmd'', 292, Cmd), (''log'', 292, Log)]\<rparr>"
  let ?k = "\<lparr>defn = \<lparr>name = ''hello'', schedule = ''* * * * *'', cmd = ''echo hi'', state = STOPPED\<rparr>,
         history = push (ring_New 32) (''t0:started'' @ [newline]), tasks = [Signalled],
         files = [(''ctl'', 438, Ctl), (''schedule'', 292, Sched), (''cmd'', 292, Cmd), (''log'', 292, Log)]\<rparr>"
  have e: "equal_ignoring_case ''Start'' START"
    by (simp add: equal_ignoring_case_def START_def same_letter_def is_upper_def)
  have t: "ToLower ''STOP'' = STOP"
    by code_simp
  have w: "jobfile_Write Ctl ?j ''STOP'' = Returned (4, None, ?k)"
    by (simp add: jobfile_Write_def writer_def ctl_writer_def t STARTED_def STOPPED_def)
  show ?thesis
    using ctl_repeated_command [of ?j "''Start''" 0 None ?j]
      ctl_repeated_command [of ?j "''STOP''" 4 None ?k] e w
    by simp
qed

lemma lower_space: "is_space w \<Longrightarrow> lower w = w"
  by (auto simp: is_space_def lower_def)

lemma not_space_START: "c \<in> set START \<Longrightarrow> \<not> is_space c"
  by (auto simp: START_def is_space_def)

lemma not_space_STOP: "c \<in> set STOP \<Longrightarrow> \<not> is_space c"
  by (auto simp: STOP_def is_space_def)

lemma ToLower_with_space:
  assumes "is_space w"
  shows "ToLower (w # data) \<noteq> START" "ToLower (w # data) \<noteq> STOP"
    "ToLower (data @ [w]) \<noteq> START" "ToLower (data @ [w]) \<noteq> STOP"
proof -
  have a: "w \<in> set (ToLower (w # data))" "w \<in> set (ToLower (data @ [w]))"
    using assms by (simp_all add: ToLower_def lower_space)
  show "ToLower (w # data) \<noteq> START" using a(1) not_space_START assms by metis
  show "ToLower (w # data) \<noteq> STOP" using a(1) not_space_STOP assms by metis
  show "ToLower (data @ [w]) \<noteq> START" using a(2) not_space_START assms by metis
  show "ToLower (data @ [w]) \<noteq> STOP" using a(2) not_space_STOP assms by metis
qed

text \<open>
  C10. The ctl writer compares the lowered payload with the two commands and trims
  nothing: a payload that begins or ends with a white-space character (a line feed after
  \<^verbatim>\<open>start\<close>, a space before \<^verbatim>\<open>stop\<close>) is an unknown command, whatever lies between, and
  the job is as before.
\<close>

theorem ctl_no_trimming:
  "is_space w \<Longrightarrow>
     jobfile_Write Ctl j (w # data) = Returned (0, Some UnknownCommand, j) \<and>
     jobfile_Write Ctl j (data @ [w]) = Returned (0, Some UnknownCommand, j)"
  by (simp add: ToLower_with_space jobfile_Write_def writer_def ctl_writer_def)

theorem ctl_no_trimming_witness:
  "is_space newline \<and> is_space (CHR '' '') \<and>
   ToLower ''start'' = START \<and> ToLower ''stop'' = STOP \<and>
   jobfile_Write Ctl
       \<lparr>defn = \<lparr>name = ''hello'', schedule = ''* * * * *'', cmd = ''echo hi'', state = STOPPED\<rparr>,
        history = ring_New 32, tasks = [],
        files = [(''ctl'', 438, Ctl), (''schedule'', 292, Sched), (''cmd'', 292, Cmd), (''log'', 292, Log)]\<rparr>
       (''start'' @ [newline])
     = Returned (0, Some UnknownCommand,
       \<lparr>defn = \<lparr>name = ''hello'', schedule = ''* * * * *'', cmd = ''echo hi'', state = STOPPED\<rparr>,
        history = ring_New 32, tasks = [],
        files = [(''ctl'', 438, Ctl), (''schedule'', 292, Sched), (''cmd'', 292, Cmd), (''log'', 292, Log)]\<rparr>) \<and>
   jobfile_Write Ctl
       \<lparr>defn = \<lparr>name = ''hello'', schedule = ''* * * * *'', cmd = ''echo hi'', state = STARTED\<rparr>,
        history = push (ring_New 32) (''t0:started'' @ [newline]), tasks = [AtSelect],
        files = [(''ctl'', 438, Ctl), (''schedule'', 292, Sched), (''cmd'', 292, Cmd), (''log'', 292, Log)]\<rparr>
       '' stop''
     = Returned (0, Some UnknownCommand,
       \<lparr>defn = \<lparr>name = ''hello'', schedule = ''* * * * *'', cmd = ''echo hi'', state = STARTED\<rparr>,
        history = push (ring_New 32) (''t0:started'' @ [newline]), tasks = [AtSelect],
        files = [(''ctl'', 438, Ctl), (''schedule'', 292, Sched), (''cmd'', 292, Cmd), (''log'', 292, Log)]\<rparr>)"
proof -
  have n: "is_space newline" by (simp add: is_space_def newline_def)
  have s: "is_space (CHR '' '')" by (simp add: is_space_def)
  have l: "ToLower ''start'' = START" "ToLower ''stop'' = STOP"
    by (simp_all add: ToLower_def lower_def START_def STOP_def)
  show ?thesis
    using ctl_no_trimming [OF n, where data = "''start''"] ctl_no_trimming [OF s, where data = "''stop''"]
      n s l
    by simp
qed

section \<open>Scheduler tasks and the state of a job\<close>

text \<open>
  A send that is received at once takes one task from before the signal to after it;
  moving a task changes the number of tasks before the signal by what the two places
  say.
\<close>

lemma send_done_unsignalled:
  "send_done ts = Some ts' \<Longrightarrow>
     Suc (length (filter before_signal ts')) = length (filter before_signal ts)"
  by (induction ts arbitrary: ts') (auto simp: before_signal_def split: if_splits)

lemma filter_length_update:
  assumes "i < length xs"
  shows "length (filter Q (xs[i := y])) + (if Q (xs ! i) then 1 else 0) =
         length (filter Q xs) + (if Q y then 1 else 0)"
proof -
  have "xs = take i xs @ xs ! i # drop (Suc i) xs"
    using assms by (rule id_take_nth_drop)
  then have "length (filter Q xs) = length (filter Q (take i xs @ xs ! i # drop (Suc i) xs))"
    by simp
  moreover have "xs[i := y] = take i xs @ y # drop (Suc i) xs"
    using assms by (rule upd_conv_take_nth_drop)
  ultimately show ?thesis by simp
qed

lemma unsignalled_move:
  assumes "at_pc j i q" and "tasks k = tasks j"
  shows "unsignalled (move k i p) + (if before_signal q then 1 else 0) =
         unsignalled j + (if before_signal p then 1 else 0)"
  using assms filter_length_update [of i "tasks j" before_signal p]
  by (simp add: unsignalled_def move_def at_pc_def)

text \<open>
  The ctl writer keeps the configuration consistent, whether it returns or is blocked in
  the send with the state already set.
\<close>

lemma ctl_writer_keeps:
  assumes "consistent Parse \<lparr>the_job = j, sender = None\<rparr>"
  shows "ctl_writer j data = Returned (n, e, j') \<Longrightarrow>
           consistent Parse \<lparr>the_job = j', sender = None\<rparr>"
    and "ctl_writer j data = Blocked j' \<Longrightarrow>
           consistent Parse \<lparr>the_job = j', sender = Some m\<rparr>"
proof -
  from assms have p: "Parse (schedule (defn j))"
    and s: "state (defn j) = STARTED \<or> state (defn j) = STOPPED"
    and u: "unsignalled j = (if state (defn j) = STARTED then 1 else 0)"
    by (simp_all add: consistent_def is_started_def)
  have ne: "STARTED \<noteq> STOPPED" by (simp add: STARTED_def STOPPED_def)
  {
    assume r: "ctl_writer j data = Returned (n, e, j')"
    show "consistent Parse \<lparr>the_job = j', sender = None\<rparr>"
    proof (cases "ToLower data = STOP")
      case True
      show ?thesis
      proof (cases "state (defn j) = STOPPED")
        case True
        with \<open>ToLower data = STOP\<close> r assms show ?thesis
          by (simp add: ctl_writer_def)
      next
        case False
        with \<open>ToLower data = STOP\<close> r obtain ts where
          ts: "send_done (tasks j) = Some ts"
          and j': "j' = j\<lparr>defn := (defn j)\<lparr>state := STOPPED\<rparr>, tasks := ts\<rparr>"
          by (auto simp: ctl_writer_def Let_def split: option.splits)
        from False s u have "unsignalled j = 1" by auto
        with send_done_unsignalled [OF ts] have "unsignalled j' = 0"
          by (simp add: unsignalled_def j')
        then show ?thesis using p ne by (simp add: consistent_def j' is_started_def)
      qed
    next
      case notstop: False
      show ?thesis
      proof (cases "ToLower data = START")
        case True
        show ?thesis
        proof (cases "state (defn j) = STARTED")
          case True
          with notstop \<open>ToLower data = START\<close> r assms show ?thesis
            by (simp add: ctl_writer_def)
        next
          case False
          with notstop \<open>ToLower data = START\<close> r have
            j': "j' = j\<lparr>defn := (defn j)\<lparr>state := STARTED\<rparr>, tasks := tasks j @ [Spawned]\<rparr>"
            by (simp add: ctl_writer_def)
          from False u have "unsignalled j = 0" by simp
          then show ?thesis using p
            by (simp add: consistent_def j' is_started_def unsignalled_def before_signal_def)
        qed
      next
        case False
        with notstop r assms show ?thesis by (simp add: ctl_writer_def)
      qed
    qed
  }
  {
    assume b: "ctl_writer j data = Blocked j'"
    then have st: "state (defn j) \<noteq> STOPPED"
      and j': "j' = j\<lparr>defn := (defn j)\<lparr>state := STOPPED\<rparr>\<rparr>"
      by (auto simp: ctl_writer_def Let_def split: if_splits option.splits)
    from st s u have "unsignalled j = 1" by auto
    then show "consistent Parse \<lparr>the_job = j', sender = Some m\<rparr>"
      using p by (simp add: consistent_def j' is_started_def unsignalled_def)
  }
qed

text \<open>A step of a task between two places before the signal, or between two after it.\<close>

lemma task_step_keeps:
  assumes "consistent Parse cf" and "at_pc (the_job cf) i q"
    and "before_signal q = before_signal p"
    and "tasks k = tasks (the_job cf)" and "defn k = defn (the_job cf)"
  shows "consistent Parse (cf\<lparr>the_job := move k i p\<rparr>)"
proof -
  from unsignalled_move [OF assms(2,4), of p] assms(3)
  have "unsignalled (move k i p) = unsignalled (the_job cf)"
    by (simp split: if_splits)
  moreover have "defn (move k i p) = defn (the_job cf)"
    using assms(5) by (simp add: move_def)
  ultimately show ?thesis using assms(1) by (simp add: consistent_def is_started_def)
qed

lemma step_keeps:
  assumes "consistent Parse cf" and "step Parse cf ev = Some cf'"
  shows "consistent Parse cf'"
proof (cases ev)
  case (Write data)
  with assms(2) have free: "sender cf = None"
    by (auto split: if_splits)
  then have cf: "cf = \<lparr>the_job = the_job cf, sender = None\<rparr>" by (cases cf) simp
  with assms(1) have c: "consistent Parse \<lparr>the_job = the_job cf, sender = None\<rparr>" by simp
  show ?thesis
  proof (cases "ctl_writer (the_job cf) data")
    case (Returned r)
    obtain n e j' where r: "r = (n, e, j')" by (cases r) auto
    from Write Returned free assms(2) r cf have "cf' = \<lparr>the_job = j', sender = None\<rparr>"
      by (cases cf) (auto simp: jobfile_Write_def writer_def)
    with ctl_writer_keeps(1) [OF c] Returned r show ?thesis by simp
  next
    case (Blocked j')
    from Write Blocked free assms(2) have "cf' = \<lparr>the_job = j', sender = Some (length data)\<rparr>"
      by (cases cf) (auto simp: jobfile_Write_def writer_def)
    with ctl_writer_keeps(2) [OF c] Blocked show ?thesis by simp
  qed
next
  case (Started i now)
  with assms(2) have i: "at_pc (the_job cf) i Spawned"
    and cf': "cf' = cf\<lparr>the_job :=
        move (record_entry (the_job cf) (now @ '':started'' @ [newline])) i LoopHead\<rparr>"
    by (auto split: if_splits)
  show ?thesis
    unfolding cf' using assms(1) i
    by (rule task_step_keeps) (simp_all add: record_entry_def before_signal_def)
next
  case (Parsed i)
  with assms(2) have i: "at_pc (the_job cf) i LoopHead"
    and cf': "cf' = cf\<lparr>the_job := move (the_job cf) i (loop_head Parse (the_job cf))\<rparr>"
    by (auto split: if_splits)
  have lh: "loop_head Parse (the_job cf) = AtSelect"
    using assms(1) by (simp add: loop_head_def consistent_def)
  show ?thesis
    unfolding cf' lh using assms(1) i
    by (rule task_step_keeps) (simp_all add: before_signal_def)
next
  case (Fired i)
  with assms(2) have i: "at_pc (the_job cf) i AtSelect"
    and cf': "cf' = cf\<lparr>the_job := move (the_job cf) i Running\<rparr>"
    by (auto split: if_splits)
  show ?thesis
    unfolding cf' using assms(1) i
    by (rule task_step_keeps) (simp_all add: before_signal_def)
next
  case (Finished i res now)
  let ?k = "case res of Failed \<Rightarrow> the_job cf
            | Output out \<Rightarrow> record_entry (the_job cf) (now @ '':'' @ out)"
  from Finished assms(2) have i: "at_pc (the_job cf) i Running"
    and cf': "cf' = cf\<lparr>the_job := move ?k i LoopHead\<rparr>"
    by (auto split: if_splits)
  have k: "tasks ?k = tasks (the_job cf)" "defn ?k = defn (the_job cf)"
    by (simp_all add: record_entry_def split: outcome.splits)
  show ?thesis
    unfolding cf' using assms(1) i _ k
    by (rule task_step_keeps) (simp add: before_signal_def)
next
  case (Received i)
  let ?j = "the_job cf"
  from Received assms(2) have snd: "sender cf \<noteq> None"
    and i: "at_pc ?j i AtSelect"
    and cf': "cf' = cf\<lparr>the_job := move ?j i Signalled, sender := None\<rparr>"
    by (auto split: if_splits)
  from assms(1) snd have st: "state (defn ?j) = STOPPED" and u: "unsignalled ?j = 1"
    and p: "Parse (schedule (defn ?j))"
    by (auto simp: consistent_def)
  from unsignalled_move [OF i, of ?j Signalled] u
  have "unsignalled (move ?j i Signalled) = 0" by (simp add: before_signal_def)
  with st p show ?thesis
    by (simp add: consistent_def cf' is_started_def STARTED_def STOPPED_def move_def)
next
  case (Completed i now)
  with assms(2) have i: "at_pc (the_job cf) i Signalled"
    and cf': "cf' = cf\<lparr>the_job :=
        move (record_entry (the_job cf) (now @ '':completed'' @ [newline])) i Exited\<rparr>"
    by (auto split: if_splits)
  show ?thesis
    unfolding cf' using assms(1) i
    by (rule task_step_keeps) (simp_all add: record_entry_def before_signal_def)
qed

lemma exec_keeps:
  "consistent Parse cf \<Longrightarrow> exec Parse cf evs = Some cf' \<Longrightarrow> consistent Parse cf'"
proof (induction evs arbitrary: cf)
  case Nil
  then show ?case by simp
next
  case (Cons ev evs)
  from Cons.prems(2) obtain k where k: "step Parse cf ev = Some k" and rest: "exec Parse k evs = Some cf'"
    by (auto split: option.splits)
  from step_keeps [OF Cons.prems(1) k] rest show ?case by (rule Cons.IH)
qed

lemma unsignalled_present: "unsignalled j = 1 \<Longrightarrow> task_present j"
proof -
  assume "unsignalled j = 1"
  then have "filter before_signal (tasks j) \<noteq> []"
    by (auto simp: unsignalled_def)
  then obtain p where "p \<in> set (tasks j)" "before_signal p"
    by (auto simp: filter_empty_conv)
  then show ?thesis by (auto simp: task_present_def list_ex_iff before_signal_def)
qed

text \<open>
  C2, as the code has it. For a job made from a definition that \<^verbatim>\<open>mkJobDefinition\<close>
  accepted, after any sequence of ctl writes and task steps, with a stop write that may
  still be blocked in its send: the state is \<^verbatim>\<open>started\<close> exactly when no writer is blocked
  and one task that the stop signal has not reached exists, and it is \<^verbatim>\<open>stopped\<close>
  otherwise; in state \<^verbatim>\<open>stopped\<close> a task that the signal has not reached exists only while
  the stop write is still blocked in the send (then there is one); a started job has a
  task present. (A stopped job can have a task present: the one not yet signalled, or one
  that has received the signal and has yet to return, see below.)
\<close>

theorem state_and_unsignalled_tasks:
  "mkJobDefinition Parse nm sched c = Inr d \<Longrightarrow> mkJob d = Inr j0 \<Longrightarrow>
   exec Parse \<lparr>the_job = j0, sender = None\<rparr> evs = Some cf \<Longrightarrow>
     (is_started (the_job cf) \<longleftrightarrow> sender cf = None \<and> unsignalled (the_job cf) = 1) \<and>
     (state (defn (the_job cf)) = STOPPED \<longleftrightarrow> \<not> is_started (the_job cf)) \<and>
     (state (defn (the_job cf)) = STOPPED \<longrightarrow>
        unsignalled (the_job cf) = (if sender cf = None then 0 else 1)) \<and>
     (is_started (the_job cf) \<longrightarrow> task_present (the_job cf))"
proof -
  assume d: "mkJobDefinition Parse nm sched c = Inr d" and j0: "mkJob d = Inr j0"
    and run: "exec Parse \<lparr>the_job = j0, sender = None\<rparr> evs = Some cf"
  have ne: "STARTED \<noteq> STOPPED" by (simp add: STARTED_def STOPPED_def)
  from j0 have j0': "defn j0 = d" "tasks j0 = []" by (auto simp: mkJob_ok)
  from mkJobDefinition_Inr [OF d] have "Parse (schedule d)" "state d = STOPPED" by simp_all
  with j0' ne have "consistent Parse \<lparr>the_job = j0, sender = None\<rparr>"
    by (simp add: consistent_def unsignalled_def is_started_def)
  from exec_keeps [OF this run] have c: "consistent Parse cf" .
  then show ?thesis
    using ne unsignalled_present [of "the_job cf"]
    by (auto simp: consistent_def is_started_def split: if_splits)
qed

text \<open>
  An instance: the job is started, its task takes the timer case, and \<^verbatim>\<open>stop\<close> is written
  while the command runs. The writer has set the state and is blocked in the send; the
  command ends and its output is recorded; the task has not received the signal.
\<close>

theorem state_and_unsignalled_tasks_witness:
  "mkJobDefinition ((=) ''* * * * *'') ''hello'' ''* * * * *'' ''echo hi''
     = Inr \<lparr>name = ''hello'', schedule = ''* * * * *'', cmd = ''echo hi'', state = STOPPED\<rparr> \<and>
   mkJob \<lparr>name = ''hello'', schedule = ''* * * * *'', cmd = ''echo hi'', state = STOPPED\<rparr>
     = Inr \<lparr>defn = \<lparr>name = ''hello'', schedule = ''* * * * *'', cmd = ''echo hi'', state = STOPPED\<rparr>,
            history = ring_New 32, tasks = [],
            files = [(''ctl'', 438, Ctl), (''schedule'', 292, Sched), (''cmd'', 292, Cmd), (''log'', 292, Log)]\<rparr> \<and>
   exec ((=) ''* * * * *'')
       \<lparr>the_job =
          \<lparr>defn = \<lparr>name = ''hello'', schedule = ''* * * * *'', cmd = ''echo hi'', state = STOPPED\<rparr>,
           history = ring_New 32, tasks = [],
           files = [(''ctl'', 438, Ctl), (''schedule'', 292, Sched), (''cmd'', 292, Cmd), (''log'', 292, Log)]\<rparr>,
        sender = None\<rparr>
       [Write ''start'', Started 0 ''t0'', Parsed 0, Fired 0, Write ''stop'',
        Finished 0 (Output ''hi'') ''t1'']
     = Some
       \<lparr>the_job =
          \<lparr>defn = \<lparr>name = ''hello'', schedule = ''* * * * *'', cmd = ''echo hi'', state = STOPPED\<rparr>,
           history = push (push (ring_New 32) (''t0:started'' @ [newline])) ''t1:hi'',
           tasks = [LoopHead],
           files = [(''ctl'', 438, Ctl), (''schedule'', 292, Sched), (''cmd'', 292, Cmd), (''log'', 292, Log)]\<rparr>,
        sender = Some 4\<rparr> \<and>
   \<not> is_started
       \<lparr>defn = \<lparr>name = ''hello'', schedule = ''* * * * *'', cmd = ''echo hi'', state = STOPPED\<rparr>,
        history = push (push (ring_New 32) (''t0:started'' @ [newline])) ''t1:hi'',
        tasks = [LoopHead],
        files = [(''ctl'', 438, Ctl), (''schedule'', 292, Sched), (''cmd'', 292, Cmd), (''log'', 292, Log)]\<rparr> \<and>
   unsignalled
       \<lparr>defn = \<lparr>name = ''hello'', schedule = ''* * * * *'', cmd = ''echo hi'', state = STOPPED\<rparr>,
        history = push (push (ring_New 32) (''t0:started'' @ [newline])) ''t1:hi'',
        tasks = [LoopHead],
        files = [(''ctl'', 438, Ctl), (''schedule'', 292, Sched), (''cmd'', 292, Cmd), (''log'', 292, Log)]\<rparr> = 1"
proof -
  have d: "mkJobDefinition ((=) ''* * * * *'') ''hello'' ''* * * * *'' ''echo hi''
     = Inr \<lparr>name = ''hello'', schedule = ''* * * * *'', cmd = ''echo hi'', state = STOPPED\<rparr>"
    by (simp add: mkJobDefinition_def MatchString_not_word_def is_word_def)
  have j0: "mkJob \<lparr>name = ''hello'', schedule = ''* * * * *'', cmd = ''echo hi'', state = STOPPED\<rparr>
     = Inr \<lparr>defn = \<lparr>name = ''hello'', schedule = ''* * * * *'', cmd = ''echo hi'', state = STOPPED\<rparr>,
            history = ring_New 32, tasks = [],
            files = [(''ctl'', 438, Ctl), (''schedule'', 292, Sched), (''cmd'', 292, Cmd), (''log'', 292, Log)]\<rparr>"
    by (rule mkJob_ok)
  have run: "exec ((=) ''* * * * *'')
       \<lparr>the_job =
          \<lparr>defn = \<lparr>name = ''hello'', schedule = ''* * * * *'', cmd = ''echo hi'', state = STOPPED\<rparr>,
           history = ring_New 32, tasks = [],
           files = [(''ctl'', 438, Ctl), (''schedule'', 292, Sched), (''cmd'', 292, Cmd), (''log'', 292, Log)]\<rparr>,
        sender = None\<rparr>
       [Write ''start'', Started 0 ''t0'', Parsed 0, Fired 0, Write ''stop'',
        Finished 0 (Output ''hi'') ''t1'']
     = Some
       \<lparr>the_job =
          \<lparr>defn = \<lparr>name = ''hello'', schedule = ''* * * * *'', cmd = ''echo hi'', state = STOPPED\<rparr>,
           history = push (push (ring_New 32) (''t0:started'' @ [newline])) ''t1:hi'',
           tasks = [LoopHead],
           files = [(''ctl'', 438, Ctl), (''schedule'', 292, Sched), (''cmd'', 292, Cmd), (''log'', 292, Log)]\<rparr>,
        sender = Some 4\<rparr>"
    by (simp add: jobfile_Write_def writer_def ctl_writer_def ToLower_def lower_def
        START_def STOP_def STARTED_def STOPPED_def record_entry_def loop_head_def
        move_def at_pc_def Let_def)
  show ?thesis
    using state_and_unsignalled_tasks [OF d j0 run] d j0 run
    by (simp add: is_started_def STARTED_def STOPPED_def)
qed

text \<open>
  The claim as stated fails after \<^verbatim>\<open>start\<close>, the steps of the task up to the \<^verbatim>\<open>select\<close>,
  and \<^verbatim>\<open>stop\<close>: the stop write returns once the task has received from \<^verbatim>\<open>j.done\<close>; the
  state is \<^verbatim>\<open>stopped\<close>, no writer is blocked, and the task, which has yet to record its
  completion, has not returned.
\<close>

theorem task_outlives_stop_counterexample:
  "mkJob \<lparr>name = ''hello'', schedule = ''* * * * *'', cmd = ''echo hi'', state = STOPPED\<rparr>
     = Inr \<lparr>defn = \<lparr>name = ''hello'', schedule = ''* * * * *'', cmd = ''echo hi'', state = STOPPED\<rparr>,
            history = ring_New 32, tasks = [],
            files = [(''ctl'', 438, Ctl), (''schedule'', 292, Sched), (''cmd'', 292, Cmd), (''log'', 292, Log)]\<rparr> \<and>
   map_option task_present (map_option the_job (exec ((=) ''* * * * *'')
       \<lparr>the_job =
          \<lparr>defn = \<lparr>name = ''hello'', schedule = ''* * * * *'', cmd = ''echo hi'', state = STOPPED\<rparr>,
           history = ring_New 32, tasks = [],
           files = [(''ctl'', 438, Ctl), (''schedule'', 292, Sched), (''cmd'', 292, Cmd), (''log'', 292, Log)]\<rparr>,
        sender = None\<rparr>
       [Write ''start'', Started 0 ''t0'', Parsed 0, Write ''stop''])) = Some True \<and>
   map_option is_started (map_option the_job (exec ((=) ''* * * * *'')
       \<lparr>the_job =
          \<lparr>defn = \<lparr>name = ''hello'', schedule = ''* * * * *'', cmd = ''echo hi'', state = STOPPED\<rparr>,
           history = ring_New 32, tasks = [],
           files = [(''ctl'', 438, Ctl), (''schedule'', 292, Sched), (''cmd'', 292, Cmd), (''log'', 292, Log)]\<rparr>,
        sender = None\<rparr>
       [Write ''start'', Started 0 ''t0'', Parsed 0, Write ''stop''])) = Some False \<and>
   map_option sender (exec ((=) ''* * * * *'')
       \<lparr>the_job =
          \<lparr>defn = \<lparr>name = ''hello'', schedule = ''* * * * *'', cmd = ''echo hi'', state = STOPPED\<rparr>,
           history = ring_New 32, tasks = [],
           files = [(''ctl'', 438, Ctl), (''schedule'', 292, Sched), (''cmd'', 292, Cmd), (''log'', 292, Log)]\<rparr>,
        sender = None\<rparr>
       [Write ''start'', Started 0 ''t0'', Parsed 0, Write ''stop'']) = Some None"
  by (simp add: mkJob_ok jobfile_Write_def writer_def ctl_writer_def ToLower_def lower_def
      START_def STOP_def STARTED_def STOPPED_def record_entry_def loop_head_def
      move_def at_pc_def task_present_def is_started_def Let_def)

end
